theory Spec2Isabelle
  imports Main "HOL-Library.Word"
begin

section \<open>The distribution core of rush: mainserver/core.py\<close>

text \<open>
  \<^verbatim>\<open>CoreServer\<close> keeps five dictionaries keyed by the connection (a socket object)
  and one dictionary of virtual groups. The embedding passes the server's state
  explicitly. A raise is a value: \<open>Inl (e, s)\<close> holds the exception and the state the
  mutations made before the raise have left behind.
\<close>

subsection \<open>Data\<close>

type_synonym byte = "8 word"

text \<open>A socket object and a \<^verbatim>\<open>Handler\<close> object are known by their identity.\<close>

type_synonym conn = nat
type_synonym href = nat

datatype py_error = KeyError | IndexError | TypeError | ValueError | UserError string

text \<open>
  Modelled from the spec: \<^verbatim>\<open>mainserver.entities.Filter\<close>, an opaque admission token
  with equality; its match operation is a parameter of \<open>send_update\<close>.
\<close>

datatype filter_t = Filter "byte list"

text \<open>
  Modelled from the spec: \<^verbatim>\<open>mainserver.entities.Handler\<close>, one worker connection with
  its connection handle, its current load (initially unset, Python's \<^verbatim>\<open>None\<close>) and
  its filter (unset until the handshake completes).
\<close>

record handler =
  h_conn :: conn
  load :: "nat option"
  h_filter :: "filter_t option"

text \<open>
  What \<^verbatim>\<open>HandlerInitializer.next_step\<close> returns: a \<^verbatim>\<open>bool\<close>, or any other value,
  which \<^verbatim>\<open>response\<close> takes for the received filter.
\<close>

datatype step = StepBool bool | StepValue "byte list"

text \<open>
  A cell of \<^verbatim>\<open>self.requests\<close>: \<^verbatim>\<open>[msg_len_received, left_to_receive, received]\<close>.
  \<^verbatim>\<open>recv(n)\<close> returns at most \<open>n\<close> bytes, so the count never goes below zero.
\<close>

type_synonym cell = "bool \<times> nat \<times> byte list"

record 'i server =
  receive_block_size :: nat
  requests :: "conn \<rightharpoonup> cell"
  responses :: "conn \<rightharpoonup> byte list list"
  waiting_for_init :: "conn \<rightharpoonup> 'i"
  handlers :: "conn \<rightharpoonup> href"
  virtual_groups :: "(filter_t \<times> href list) list"
  store :: "href \<Rightarrow> handler"
  next_ref :: href
  sock_buf :: "conn \<Rightarrow> byte list"
  closed :: "conn set"
  callback_log :: "(href \<times> byte list) list"
  sent :: "(href \<times> byte list) list"

text \<open>
  \<open>store\<close> is the heap of \<^verbatim>\<open>Handler\<close> objects: \<open>handlers\<close> and \<open>virtual_groups\<close>
  hold references into it, as the Python dictionaries share the objects.
  \<open>sock_buf c\<close> holds the bytes that socket \<open>c\<close> can deliver now, \<open>closed\<close> the
  sockets \<^verbatim>\<open>close()\<close> was called on, \<open>callback_log\<close> the calls of \<^verbatim>\<open>self.callback\<close>
  and \<open>sent\<close> the calls of \<^verbatim>\<open>Handler.send\<close>, in order.
\<close>

type_synonym 'i outcome = "(py_error \<times> 'i server) + 'i server"

definition final_state :: "'i outcome \<Rightarrow> 'i server" where
  "final_state r = (case r of Inl (e, s) \<Rightarrow> s | Inr s \<Rightarrow> s)"

definition raised :: "'i outcome \<Rightarrow> py_error option" where
  "raised r = (case r of Inl (e, s) \<Rightarrow> Some e | Inr s \<Rightarrow> None)"

definition RESPONSE :: byte where
  "RESPONSE = 0"

definition HEARTBEAT :: byte where
  "HEARTBEAT = 1"

definition new_handler :: "conn \<Rightarrow> handler" where
  "new_handler c = \<lparr>h_conn = c, load = None, h_filter = None\<rparr>"

definition init_server :: "nat \<Rightarrow> 'i server" where
  "init_server block =
     \<lparr>receive_block_size = block, requests = Map.empty, responses = Map.empty,
      waiting_for_init = Map.empty, handlers = Map.empty, virtual_groups = [],
      store = (\<lambda>r. new_handler 0), next_ref = 0, sock_buf = (\<lambda>c. []), closed = {},
      callback_log = [], sent = []\<rparr>"

subsection \<open>Sockets and bytes\<close>

text \<open>\<^verbatim>\<open>int.from_bytes(bs, 'little')\<close>\<close>

fun from_bytes_little :: "byte list \<Rightarrow> nat" where
  "from_bytes_little [] = 0"
| "from_bytes_little (b # bs) = unat b + 256 * from_bytes_little bs"

text \<open>\<^verbatim>\<open>conn.recv(n)\<close>: at most \<open>n\<close> of the bytes the socket holds, which leave it.\<close>

definition recv :: "'i server \<Rightarrow> conn \<Rightarrow> nat \<Rightarrow> byte list \<times> 'i server" where
  "recv s c n =
     (take n (sock_buf s c), s\<lparr>sock_buf := (sock_buf s)(c := drop n (sock_buf s c))\<rparr>)"

text \<open>Bytes that reach socket \<open>c\<close> from the peer.\<close>

definition arrive :: "'i server \<Rightarrow> conn \<Rightarrow> byte list \<Rightarrow> 'i server" where
  "arrive s c bs = s\<lparr>sock_buf := (sock_buf s)(c := sock_buf s c @ bs)\<rparr>"

text \<open>
  Python's \<^verbatim>\<open>+\<close> between an \<^verbatim>\<open>int\<close> and a \<^verbatim>\<open>bytes\<close> object has no result: it raises
  \<^verbatim>\<open>TypeError\<close>.
\<close>

definition int_plus_bytes :: "nat \<Rightarrow> byte list \<Rightarrow> py_error + nat" where
  "int_plus_bytes n bs = Inl TypeError"

subsection \<open>CONNECT and DISCONNECT\<close>

definition conn_handler :: "(conn \<Rightarrow> 'i) \<Rightarrow> 'i server \<Rightarrow> conn \<Rightarrow> 'i server" where
  "conn_handler HandlerInitializer s c =
     (let handler_entity = next_ref s
      in s\<lparr>store := (store s)(handler_entity := new_handler c),
           next_ref := Suc (next_ref s),
           handlers := (handlers s)(c \<mapsto> handler_entity),
           waiting_for_init := (waiting_for_init s)(c \<mapsto> HandlerInitializer c)\<rparr>)"

definition disconn_handler :: "'i server \<Rightarrow> conn \<Rightarrow> 'i outcome" where
  "disconn_handler s c =
     (let s1 = (if c \<in> dom (waiting_for_init s)
                then s\<lparr>waiting_for_init := (waiting_for_init s)(c := None)\<rparr> else s);
          s2 = (if c \<in> dom (requests s1)
                then s1\<lparr>requests := (requests s1)(c := None)\<rparr> else s1);
          s3 = (if c \<in> dom (responses s2)
                then s2\<lparr>responses := (responses s2)(c := None)\<rparr> else s2);
          s4 = s3\<lparr>closed := insert c (closed s3)\<rparr>
      in case handlers s4 c of
           None \<Rightarrow> Inl (KeyError, s4)
         | Some h \<Rightarrow> Inr (s4\<lparr>handlers := (handlers s4)(c := None)\<rparr>))"

subsection \<open>Completed frames\<close>

text \<open>
  \<^verbatim>\<open>if filter_ not in self.virtual_groups: ... = [handler_entity]\<close>,
  \<^verbatim>\<open>else: ... .append(handler_entity)\<close>; a dictionary keeps the order of insertion.
\<close>

fun vg_add :: "filter_t \<Rightarrow> href \<Rightarrow> (filter_t \<times> href list) list \<Rightarrow> (filter_t \<times> href list) list" where
  "vg_add f h [] = [(f, [h])]"
| "vg_add f h ((g, hs) # vgs) =
     (if g = f then (g, hs @ [h]) # vgs else (g, hs) # vg_add f h vgs)"

definition response ::
  "(href \<Rightarrow> byte list \<Rightarrow> py_error option) \<Rightarrow> ('i \<Rightarrow> byte list \<Rightarrow> step \<times> 'i) \<Rightarrow>
   'i server \<Rightarrow> conn \<Rightarrow> byte list \<Rightarrow> 'i outcome" where
  "response callback next_step s c response_body =
     (case handlers s c of
        None \<Rightarrow> Inl (KeyError, s)
      | Some handler_entity \<Rightarrow>
          (case waiting_for_init s c of
             Some initializer \<Rightarrow>
               (let (resp, initializer') = next_step initializer response_body;
                    s1 = s\<lparr>waiting_for_init := (waiting_for_init s)(c \<mapsto> initializer')\<rparr>
                in case resp of
                     StepValue v \<Rightarrow>
                       Inr (s1\<lparr>waiting_for_init := (waiting_for_init s1)(c := None),
                               virtual_groups :=
                                 vg_add (Filter v) handler_entity (virtual_groups s1),
                               store := (store s1)(handler_entity :=
                                 (store s1 handler_entity)\<lparr>h_filter := Some (Filter v)\<rparr>)\<rparr>)
                   | StepBool b \<Rightarrow>
                       if \<not> b then Inr (s1\<lparr>closed := insert c (closed s1)\<rparr>) else Inr s1)
           | None \<Rightarrow>
               (case response_body of
                  [] \<Rightarrow> Inl (IndexError, s)
                | tag # rest \<Rightarrow>
                    if tag = HEARTBEAT then
                      (case rest of
                         [] \<Rightarrow> Inl (IndexError, s)
                       | l # _ \<Rightarrow>
                           Inr (s\<lparr>store := (store s)(handler_entity :=
                                    (store s handler_entity)\<lparr>load := Some (unat l)\<rparr>)\<rparr>))
                    else
                      (let s1 = s\<lparr>callback_log := callback_log s @ [(handler_entity, rest)]\<rparr>
                       in case callback handler_entity rest of
                            None \<Rightarrow> Inr s1
                          | Some e \<Rightarrow> Inl (e, s1)))))"

subsection \<open>RECEIVE: the frame reassembly\<close>

definition requests_handler ::
  "(href \<Rightarrow> byte list \<Rightarrow> py_error option) \<Rightarrow> ('i \<Rightarrow> byte list \<Rightarrow> step \<times> 'i) \<Rightarrow>
   'i server \<Rightarrow> conn \<Rightarrow> 'i outcome" where
  "requests_handler callback next_step s c =
     (case requests s c of
        None \<Rightarrow>
          (let (future_msg_len, s1) = recv s c 4
           in if length future_msg_len = 4
              then Inr (s1\<lparr>requests := (requests s1)
                          (c \<mapsto> (True, from_bytes_little future_msg_len, []))\<rparr>)
              else Inr (s1\<lparr>requests := (requests s1)
                          (c \<mapsto> (False, 4 - length future_msg_len, future_msg_len))\<rparr>))
      | Some (msg_len_received, left_to_receive, buf) \<Rightarrow>
          if \<not> msg_len_received then
            (let (received, s1) = recv s c left_to_receive
             in if left_to_receive - length received \<le> 0
                then (case int_plus_bytes (from_bytes_little buf) received of
                        Inl e \<Rightarrow> Inl (e, s1)
                      | Inr n \<Rightarrow> Inr (s1\<lparr>requests := (requests s1)(c \<mapsto> (True, n, []))\<rparr>))
                else Inr (s1\<lparr>requests := (requests s1)
                            (c \<mapsto> (False, left_to_receive - length received, buf @ received))\<rparr>))
          else
            (let (request, s1) = recv s c (if left_to_receive \<le> receive_block_size s
                                           then left_to_receive else receive_block_size s);
                 s2 = s1\<lparr>requests := (requests s1)
                        (c \<mapsto> (True, left_to_receive - length request, buf @ request))\<rparr>
             in if left_to_receive - length request \<le> 0
                then (case response callback next_step s2 c (buf @ request) of
                        Inl e \<Rightarrow> Inl e
                      | Inr s3 \<Rightarrow> Inr (s3\<lparr>requests := (requests s3)(c := None)\<rparr>))
                else Inr s2))"

subsection \<open>Dispatch\<close>

text \<open>
  Python's \<^verbatim>\<open>min(xs, key=k)\<close>: \<^verbatim>\<open>ValueError\<close> on an empty list; each later element's
  key is compared with \<^verbatim>\<open><\<close> against the best key so far, and \<^verbatim>\<open><\<close> with a
  \<^verbatim>\<open>None\<close> on either side raises \<^verbatim>\<open>TypeError\<close>.
\<close>

fun min_loop :: "('a \<Rightarrow> nat option) \<Rightarrow> 'a \<Rightarrow> 'a list \<Rightarrow> py_error + 'a" where
  "min_loop key best [] = Inr best"
| "min_loop key best (x # xs) =
     (case (key x, key best) of
        (Some a, Some b) \<Rightarrow> min_loop key (if a < b then x else best) xs
      | _ \<Rightarrow> Inl TypeError)"

fun py_min :: "('a \<Rightarrow> nat option) \<Rightarrow> 'a list \<Rightarrow> py_error + 'a" where
  "py_min key [] = Inl ValueError"
| "py_min key (x # xs) = min_loop key x xs"

text \<open>
  Modelled from the spec: \<^verbatim>\<open>Handler.send\<close> (mainserver/entities.py) writes the message to
  that Handler's connection; the model records the write.
\<close>

definition handler_send :: "'i server \<Rightarrow> href \<Rightarrow> byte list \<Rightarrow> 'i server" where
  "handler_send s h msg = s\<lparr>sent := sent s @ [(h, msg)]\<rparr>"

text \<open>
  \<^verbatim>\<open>handler.send(dumps(request).encode())\<close>: \<^verbatim>\<open>json.dumps\<close> raises \<^verbatim>\<open>TypeError\<close> on a
  request it cannot serialise (a \<^verbatim>\<open>bytes\<close> body, for one), after \<^verbatim>\<open>min\<close> has chosen the
  Handler and before \<^verbatim>\<open>send\<close> is called. The parameter \<open>dumps\<close> is \<^verbatim>\<open>dumps\<close> followed by
  \<^verbatim>\<open>encode\<close>, with \<open>Inl\<close> for the raise.
\<close>

fun send_loop ::
  "(filter_t \<Rightarrow> 'r \<Rightarrow> bool) \<Rightarrow> ('r \<Rightarrow> py_error + byte list) \<Rightarrow> 'r \<Rightarrow> 'i server \<Rightarrow>
   (filter_t \<times> href list) list \<Rightarrow> 'i outcome" where
  "send_loop matches dumps request s [] = Inr s"
| "send_loop matches dumps request s ((virtual_group_filter, hs) # vgs) =
     (if matches virtual_group_filter request then
        (case py_min (\<lambda>h. load (store s h)) hs of
           Inl e \<Rightarrow> Inl (e, s)
         | Inr h \<Rightarrow>
             (case dumps request of
                Inl e \<Rightarrow> Inl (e, s)
              | Inr msg \<Rightarrow> send_loop matches dumps request (handler_send s h msg) vgs))
      else send_loop matches dumps request s vgs)"

definition send_update ::
  "(filter_t \<Rightarrow> 'r \<Rightarrow> bool) \<Rightarrow> ('r \<Rightarrow> py_error + byte list) \<Rightarrow> 'i server \<Rightarrow> 'r \<Rightarrow>
   'i outcome" where
  "send_update matches dumps s request =
     send_loop matches dumps request s (virtual_groups s)"

subsection \<open>The event loop's view\<close>

text \<open>
  What the owning system supplies: the response callback (\<open>Some e\<close> when it raises
  \<open>e\<close>), the two operations of \<^verbatim>\<open>HandlerInitializer\<close> and of \<^verbatim>\<open>Filter\<close> that
  core.py calls, and the encoding \<^verbatim>\<open>dumps(request).encode()\<close> (\<open>Inl e\<close> when it raises
  \<open>e\<close>).
\<close>

record ('i, 'r) env =
  callback :: "href \<Rightarrow> byte list \<Rightarrow> py_error option"
  next_step :: "'i \<Rightarrow> byte list \<Rightarrow> step \<times> 'i"
  HandlerInitializer :: "conn \<Rightarrow> 'i"
  matches :: "filter_t \<Rightarrow> 'r \<Rightarrow> bool"
  dumps :: "'r \<Rightarrow> py_error + byte list"

text \<open>
  The epoll server calls one handler per event; \<open>Arrive\<close> is the peer writing bytes and
  \<open>Dispatch\<close> the owning system calling \<^verbatim>\<open>send_update\<close>.
\<close>

datatype 'r event =
  CONNECT conn | RECEIVE conn | DISCONNECT conn | Arrive conn "byte list" | Dispatch 'r

fun handle_event :: "('i, 'r) env \<Rightarrow> 'i server \<Rightarrow> 'r event \<Rightarrow> 'i outcome" where
  "handle_event E s (CONNECT c) = Inr (conn_handler (HandlerInitializer E) s c)"
| "handle_event E s (RECEIVE c) = requests_handler (callback E) (next_step E) s c"
| "handle_event E s (DISCONNECT c) = disconn_handler s c"
| "handle_event E s (Arrive c bs) = Inr (arrive s c bs)"
| "handle_event E s (Dispatch r) = send_update (matches E) (dumps E) s r"

text \<open>
  A sequence of events. Nothing in core.py catches an exception, so the run is followed
  up to the first raise that leaves a handler.
\<close>

fun run :: "('i, 'r) env \<Rightarrow> 'i server \<Rightarrow> 'r event list \<Rightarrow> 'i outcome" where
  "run E s [] = Inr s"
| "run E s (ev # evs) =
     (case handle_event E s ev of Inl e \<Rightarrow> Inl e | Inr s' \<Rightarrow> run E s' evs)"

subsection \<open>Delivery in partial reads\<close>

text \<open>
  The peer's bytes reach the server chunk by chunk, and each chunk triggers one RECEIVE.
  \<open>emit\<close> is what \<^verbatim>\<open>requests_handler\<close> does with a payload that is complete: hand it
  to \<^verbatim>\<open>response\<close> and drop the cell.
\<close>

fun deliver ::
  "(href \<Rightarrow> byte list \<Rightarrow> py_error option) \<Rightarrow> ('i \<Rightarrow> byte list \<Rightarrow> step \<times> 'i) \<Rightarrow>
   'i server \<Rightarrow> conn \<Rightarrow> byte list list \<Rightarrow> 'i outcome" where
  "deliver cb ns s c [] = Inr s"
| "deliver cb ns s c (chunk # chunks) =
     (case requests_handler cb ns (arrive s c chunk) c of
        Inl e \<Rightarrow> Inl e
      | Inr s' \<Rightarrow> deliver cb ns s' c chunks)"

definition emit ::
  "(href \<Rightarrow> byte list \<Rightarrow> py_error option) \<Rightarrow> ('i \<Rightarrow> byte list \<Rightarrow> step \<times> 'i) \<Rightarrow>
   'i server \<Rightarrow> conn \<Rightarrow> byte list \<Rightarrow> 'i outcome" where
  "emit cb ns s c payload =
     (case response cb ns (s\<lparr>requests := (requests s)(c \<mapsto> (True, 0, payload))\<rparr>) c payload of
        Inl e \<Rightarrow> Inl e
      | Inr s3 \<Rightarrow> Inr (s3\<lparr>requests := (requests s3)(c := None)\<rparr>))"

subsection \<open>Properties to state the claims with\<close>

definition admitted :: "'i server \<Rightarrow> conn \<Rightarrow> href \<Rightarrow> bool" where
  "admitted s c h \<longleftrightarrow> handlers s c = Some h \<and> waiting_for_init s c = None"


definition groups_nonempty :: "'i server \<Rightarrow> bool" where
  "groups_nonempty s \<longleftrightarrow> (\<forall>(f, hs) \<in> set (virtual_groups s). hs \<noteq> [])"


text \<open>
  What the registry keeps in every state the events can lead to: no virtual group is
  empty, two connections never share a Handler object, and every Handler in use has been
  allocated.
\<close>

definition registry_ok :: "'i server \<Rightarrow> bool" where
  "registry_ok s \<longleftrightarrow>
     groups_nonempty s \<and> inj_on (handlers s) (dom (handlers s)) \<and>
     (\<forall>c h. handlers s c = Some h \<longrightarrow> h < next_ref s)"

subsection \<open>A worked example\<close>

text \<open>
  A callback that raises on an empty body; an initialiser that checks the magic bytes
  and then takes the next frame for the filter; a filter that accepts the requests
  starting with its token; an encoding that refuses a request holding the byte 0xFF, as
  \<^verbatim>\<open>json.dumps\<close> refuses a request holding a \<^verbatim>\<open>bytes\<close> object.
\<close>

definition ex_env :: "(nat, byte list) env" where
  "ex_env =
     \<lparr>callback = (\<lambda>h body. if body = [] then Some (UserError ''empty body'') else None),
      next_step = (\<lambda>i body. if i = 0 then (StepBool (body = [0x69, 4, 2, 0]), 1)
                             else (StepValue body, Suc i)),
      HandlerInitializer = (\<lambda>c. 0),
      matches = (\<lambda>f r. f = Filter (take 1 r)),
      dumps = (\<lambda>r. if 0xFF \<in> set r then Inl TypeError else Inr r)\<rparr>"

text \<open>The events that admit connection \<open>c\<close> with the filter token \<open>[f]\<close>.\<close>

definition admit :: "conn \<Rightarrow> byte \<Rightarrow> byte list event list" where
  "admit c f =
     [CONNECT c, Arrive c [4, 0, 0, 0, 0x69, 4, 2, 0], RECEIVE c, RECEIVE c,
      Arrive c [1, 0, 0, 0, f], RECEIVE c, RECEIVE c]"

text \<open>A heartbeat of load \<open>l\<close> on connection \<open>c\<close>.\<close>

definition beat :: "conn \<Rightarrow> byte \<Rightarrow> byte list event list" where
  "beat c l = [Arrive c [2, 0, 0, 0, 1, l], RECEIVE c, RECEIVE c]"

definition ex_fresh :: "nat server" where
  "ex_fresh =
     \<lparr>receive_block_size = 4096, requests = Map.empty, responses = Map.empty,
      waiting_for_init = [7 \<mapsto> 0], handlers = [7 \<mapsto> 0], virtual_groups = [],
      store = (\<lambda>r. new_handler 0)(0 := new_handler 7),
      next_ref = 1, sock_buf = (\<lambda>c. []), closed = {}, callback_log = [], sent = []\<rparr>"

definition ex_admitted :: "nat server" where
  "ex_admitted =
     \<lparr>receive_block_size = 4096, requests = Map.empty, responses = Map.empty,
      waiting_for_init = Map.empty, handlers = [7 \<mapsto> 0],
      virtual_groups = [(Filter [0x66], [0])],
      store = (\<lambda>r. new_handler 0)
        (0 := \<lparr>h_conn = 7, load = None, h_filter = Some (Filter [0x66])\<rparr>),
      next_ref = 1, sock_buf = (\<lambda>c. []), closed = {}, callback_log = [], sent = []\<rparr>"


text \<open>Connection 7 admitted, with the frame \<open>[9]\<close> announced and its one byte in the socket.\<close>

definition ex_pending :: "nat server" where
  "ex_pending =
     ex_admitted\<lparr>requests := [7 \<mapsto> (True, 1, [])], sock_buf := (\<lambda>c. [])(7 := [9])\<rparr>"

text \<open>Connection 7 after a heartbeat of load 80, and then connection 8 admitted to the same group.\<close>

definition ex_beaten :: "nat server" where
  "ex_beaten =
     ex_admitted\<lparr>store := (\<lambda>r. new_handler 0)
       (0 := \<lparr>h_conn = 7, load = Some 80, h_filter = Some (Filter [0x66])\<rparr>)\<rparr>"

definition ex_two :: "nat server" where
  "ex_two =
     \<lparr>receive_block_size = 4096, requests = Map.empty, responses = Map.empty,
      waiting_for_init = Map.empty, handlers = [7 \<mapsto> 0, 8 \<mapsto> 1],
      virtual_groups = [(Filter [0x66], [0, 1])],
      store = (\<lambda>r. new_handler 0)
        (0 := \<lparr>h_conn = 7, load = Some 80, h_filter = Some (Filter [0x66])\<rparr>,
         1 := \<lparr>h_conn = 8, load = None, h_filter = Some (Filter [0x66])\<rparr>),
      next_ref = 2, sock_buf = (\<lambda>c. []), closed = {}, callback_log = [], sent = []\<rparr>"

section \<open>Theorems\<close>

lemmas handler_defs =
  init_server_def conn_handler_def arrive_def requests_handler_def recv_def response_def
  send_update_def handler_send_def new_handler_def HEARTBEAT_def disconn_handler_def
  int_plus_bytes_def Let_def

lemma run_append:
  "run E s (evs @ evs') = (case run E s evs of Inl e \<Rightarrow> Inl e | Inr s' \<Rightarrow> run E s' evs')"
  by (induction evs arbitrary: s) (auto split: sum.splits)

lemma ex_fresh_reached: "run ex_env (init_server 4096) [CONNECT 7] = Inr ex_fresh"
  by (simp add: ex_env_def ex_fresh_def handler_defs)

lemma ex_admitted_reached: "run ex_env (init_server 4096) (admit 7 0x66) = Inr ex_admitted"
  by (simp add: ex_env_def ex_admitted_def admit_def handler_defs fun_upd_idem_iff)

lemma ex_admitted_is_admitted: "admitted ex_admitted 7 0"
  by (simp add: admitted_def ex_admitted_def)

lemma ex_admitted_logs: "callback_log ex_admitted = []" "sent ex_admitted = []"
  by (simp_all add: ex_admitted_def)

subsection \<open>Message classification\<close>

lemma response_heartbeat:
  assumes "admitted s c h"
  shows "response cb ns s c (HEARTBEAT # l # rest) =
           Inr (s\<lparr>store := (store s)(h := (store s h)\<lparr>load := Some (unat l)\<rparr>)\<rparr>)"
  using assms by (simp add: response_def admitted_def)

lemma response_application:
  assumes "admitted s c h" and "tag \<noteq> HEARTBEAT"
  shows "response cb ns s c (tag # body) =
           (case cb h body of
              None \<Rightarrow> Inr (s\<lparr>callback_log := callback_log s @ [(h, body)]\<rparr>)
            | Some e \<Rightarrow> Inl (e, s\<lparr>callback_log := callback_log s @ [(h, body)]\<rparr>))"
  using assms by (simp add: response_def admitted_def Let_def)

lemma byte_le_255: "unat (l :: byte) \<le> 255"
proof -
  have "unat l < 2 ^ LENGTH(8)"
    by (rule unsigned_less)
  then show ?thesis
    by simp
qed

text \<open>
  C6, as stated, fails: the frame of the single byte 1 has the tag of a heartbeat, and on
  the admitted connection 7 of the example \<^verbatim>\<open>response_body[1]\<close> raises \<^verbatim>\<open>IndexError\<close>;
  no load is set, the Handler's load stays unset.
\<close>

theorem one_byte_heartbeat_sets_no_load:
  "admitted ex_admitted 7 0 \<and>
   response (callback ex_env) (next_step ex_env) ex_admitted 7 [HEARTBEAT] =
     Inl (IndexError, ex_admitted) \<and>
   load (store ex_admitted 0) = None"
  by (simp add: response_def admitted_def ex_admitted_def)

text \<open>
  C6, amended: on an admitted connection a completed frame whose first byte is 1 and
  that has at least two bytes is a heartbeat: the second byte, a value from 0 to 255,
  replaces the load of that connection's Handler whatever the load was, the response
  callback is not called and no other Handler's load changes (nor, the handler map being
  injective, the load of any other connection).
\<close>

theorem heartbeat_overwrites_load:
  assumes "admitted s c h"
  shows "response cb ns s c (HEARTBEAT # l # rest) =
           Inr (s\<lparr>store := (store s)(h := (store s h)\<lparr>load := Some (unat l)\<rparr>)\<rparr>) \<and>
         load (store (final_state (response cb ns s c (HEARTBEAT # l # rest))) h)
           = Some (unat l) \<and>
         unat l \<le> 255 \<and>
         callback_log (final_state (response cb ns s c (HEARTBEAT # l # rest)))
           = callback_log s \<and>
         (\<forall>h'. h' \<noteq> h \<longrightarrow>
            store (final_state (response cb ns s c (HEARTBEAT # l # rest))) h' = store s h') \<and>
         (inj_on (handlers s) (dom (handlers s)) \<longrightarrow>
            (\<forall>c' h'. c' \<noteq> c \<and> handlers s c' = Some h' \<longrightarrow>
               load (store (final_state (response cb ns s c (HEARTBEAT # l # rest))) h') =
                 load (store s h')))"
proof -
  have "h' \<noteq> h" if "inj_on (handlers s) (dom (handlers s))" and "c' \<noteq> c"
    and "handlers s c' = Some h'" for c' h'
  proof
    assume "h' = h"
    with that(3) assms have "handlers s c' = handlers s c" "c' \<in> dom (handlers s)"
      "c \<in> dom (handlers s)"
      by (auto simp add: admitted_def)
    with that(1) have "c' = c"
      by (auto dest: inj_onD)
    with that(2) show False
      by simp
  qed
  then have "\<forall>c' h'. c' \<noteq> c \<and> handlers s c' = Some h' \<longrightarrow>
      load (store (final_state (response cb ns s c (HEARTBEAT # l # rest))) h') =
        load (store s h')"
    if "inj_on (handlers s) (dom (handlers s))"
    using that by (auto simp add: response_heartbeat [OF assms] final_state_def)
  then show ?thesis
    by (simp add: response_heartbeat [OF assms] final_state_def byte_le_255)
qed

theorem heartbeat_overwrites_load_witness:
  "admitted ex_admitted 7 0 \<and>
   load (store (final_state
     (response (callback ex_env) (next_step ex_env) ex_admitted 7 [1, 57])) 0) = Some 57 \<and>
   callback_log (final_state
     (response (callback ex_env) (next_step ex_env) ex_admitted 7 [1, 57])) = []"
  using heartbeat_overwrites_load [OF ex_admitted_is_admitted,
      of "callback ex_env" "next_step ex_env" 57 "[]"]
  by (simp add: ex_admitted_is_admitted HEARTBEAT_def final_state_def ex_admitted_logs)

text \<open>
  C7: on an admitted connection a completed frame whose first byte is not 1 makes exactly
  one call of the response callback, with the Handler of that connection and the payload
  from index 1 onward; nothing else of the state changes, so the Handler's load is as it
  was. This holds whether the callback returns or raises.
\<close>

theorem application_frame_calls_callback_once:
  assumes "admitted s c h" and "tag \<noteq> HEARTBEAT"
  shows "final_state (response cb ns s c (tag # body)) =
           s\<lparr>callback_log := callback_log s @ [(h, body)]\<rparr> \<and>
         load (store (final_state (response cb ns s c (tag # body))) h) = load (store s h)"
  by (simp add: response_application [OF assms] final_state_def split: option.split)

theorem application_frame_calls_callback_once_witness:
  "admitted ex_admitted 7 0 \<and> (9 :: byte) \<noteq> HEARTBEAT \<and>
   callback_log (final_state (response (callback ex_env) (next_step ex_env) ex_admitted 7
     [9, 0x68, 0x65, 0x6C, 0x6C, 0x6F])) = [(0, [0x68, 0x65, 0x6C, 0x6C, 0x6F])]"
proof -
  have t: "(9 :: byte) \<noteq> HEARTBEAT"
    by (simp add: HEARTBEAT_def)
  show ?thesis
    using application_frame_calls_callback_once [OF ex_admitted_is_admitted t,
        of "callback ex_env" "next_step ex_env" "[0x68, 0x65, 0x6C, 0x6C, 0x6F]"]
    by (simp add: ex_admitted_is_admitted t ex_admitted_logs)
qed

text \<open>
  C10: classification is partial in the frame length. On an admitted connection the
  empty frame raises \<^verbatim>\<open>IndexError\<close> at \<^verbatim>\<open>response_body[0]\<close> and the frame of the single
  byte 1 raises it at \<^verbatim>\<open>response_body[1]\<close>, both without touching the state; a frame
  of declared length 0 reaches \<^verbatim>\<open>response\<close> as the empty frame. A frame with at least
  one byte, and at least two when the tag is 1, is classified: the only exception that
  can come out then is one the callback raised.
\<close>

theorem classification_partial_in_length:
  assumes "admitted s c h"
  shows "response cb ns s c [] = Inl (IndexError, s) \<and>
         response cb ns s c [HEARTBEAT] = Inl (IndexError, s) \<and>
         (requests s c = Some (True, 0, []) \<longrightarrow>
            raised (requests_handler cb ns s c) = Some IndexError) \<and>
         (\<forall>tag body. (tag = HEARTBEAT \<longrightarrow> body \<noteq> []) \<longrightarrow>
            raised (response cb ns s c (tag # body)) =
              (if tag = HEARTBEAT then None else cb h body))"
proof -
  have a: "response cb ns s c [] = Inl (IndexError, s)"
    using assms by (simp add: response_def admitted_def)
  have b: "response cb ns s c [HEARTBEAT] = Inl (IndexError, s)"
    using assms by (simp add: response_def admitted_def)
  have c: "raised (requests_handler cb ns s c) = Some IndexError"
    if "requests s c = Some (True, 0, [])"
    using assms that
    by (simp add: requests_handler_def recv_def response_def admitted_def raised_def)
  have d: "raised (response cb ns s c (tag # body)) =
             (if tag = HEARTBEAT then None else cb h body)"
    if "tag = HEARTBEAT \<longrightarrow> body \<noteq> []" for tag body
  proof (cases "tag = HEARTBEAT")
    case True
    with that obtain l rest where "body = l # rest"
      by (cases body) auto
    with True show ?thesis
      by (simp add: response_heartbeat [OF assms] raised_def)
  next
    case False
    then show ?thesis
      by (simp add: response_application [OF assms] raised_def split: option.split)
  qed
  from a b c d show ?thesis
    by blast
qed

theorem classification_partial_in_length_witness:
  "admitted ex_admitted 7 0 \<and>
   response (callback ex_env) (next_step ex_env) ex_admitted 7 [] =
     Inl (IndexError, ex_admitted) \<and>
   response (callback ex_env) (next_step ex_env) ex_admitted 7 [1] =
     Inl (IndexError, ex_admitted) \<and>
   raised (response (callback ex_env) (next_step ex_env) ex_admitted 7 [1, 57]) = None"
  using classification_partial_in_length [OF ex_admitted_is_admitted,
      of "callback ex_env" "next_step ex_env"]
  by (simp add: ex_admitted_is_admitted HEARTBEAT_def)

subsection \<open>Callback failure\<close>

lemma ex_pending_reached:
  "run ex_env ex_admitted [Arrive 7 [1, 0, 0, 0, 9], RECEIVE 7] = Inr ex_pending"
  by (simp add: ex_env_def ex_admitted_def ex_pending_def handler_defs)

lemma ex_pending_is_admitted: "admitted ex_pending 7 0"
  by (simp add: admitted_def ex_pending_def ex_admitted_def)

text \<open>
  C8, as stated, fails: on the admitted connection 7 of the example the frame \<open>[9]\<close>
  completes, the callback raises on its empty body, and the exception comes out of
  \<^verbatim>\<open>requests_handler\<close>.
\<close>

theorem callback_exception_reaches_caller:
  "raised (requests_handler (callback ex_env) (next_step ex_env) ex_pending 7) =
     Some (UserError ''empty body'')"
  by (simp add: ex_env_def ex_pending_def ex_admitted_def handler_defs raised_def)

text \<open>
  C8, amended: when the callback raises on a completed application frame of an admitted
  connection, the exception leaves \<^verbatim>\<open>response\<close> and \<^verbatim>\<open>requests_handler\<close> as it is:
  core.py has no exception handler. The callback has been called once, and the cell of
  the completed frame stays in \<^verbatim>\<open>self.requests\<close>, since \<^verbatim>\<open>requests.pop\<close> is skipped.
\<close>

theorem callback_exception_propagates:
  assumes "admitted s c h"
    and "requests s c = Some (True, left, buf)"
    and "left \<le> receive_block_size s"
    and "left \<le> length (sock_buf s c)"
    and "buf @ take left (sock_buf s c) = tag # body"
    and "tag \<noteq> HEARTBEAT"
    and "cb h body = Some e"
  shows "response cb ns s c (tag # body) =
           Inl (e, s\<lparr>callback_log := callback_log s @ [(h, body)]\<rparr>) \<and>
         raised (requests_handler cb ns s c) = Some e \<and>
         requests (final_state (requests_handler cb ns s c)) c = Some (True, 0, tag # body) \<and>
         callback_log (final_state (requests_handler cb ns s c)) =
           callback_log s @ [(h, body)]"
proof -
  let ?s2 = "s\<lparr>sock_buf := (sock_buf s)(c := drop left (sock_buf s c)),
               requests := (requests s)(c \<mapsto> (True, 0, tag # body))\<rparr>"
  have adm: "admitted ?s2 c h"
    using assms(1) by (simp add: admitted_def)
  have r: "response cb ns ?s2 c (tag # body) =
             Inl (e, ?s2\<lparr>callback_log := callback_log ?s2 @ [(h, body)]\<rparr>)"
    using assms(6,7) by (simp add: response_application [OF adm])
  have len: "length (take left (sock_buf s c)) = left"
    using assms(4) by simp
  have rh: "requests_handler cb ns s c =
              Inl (e, ?s2\<lparr>callback_log := callback_log ?s2 @ [(h, body)]\<rparr>)"
    using assms(2,3,5) r len
    by (simp add: requests_handler_def recv_def Let_def del: length_take)
  show ?thesis
    using assms(6,7) rh
    by (simp add: response_application [OF assms(1)] raised_def final_state_def)
qed

theorem callback_exception_propagates_witness:
  "admitted ex_pending 7 0 \<and> requests ex_pending 7 = Some (True, 1, []) \<and>
   callback ex_env 0 [] = Some (UserError ''empty body'') \<and>
   raised (requests_handler (callback ex_env) (next_step ex_env) ex_pending 7) =
     Some (UserError ''empty body'') \<and>
   requests (final_state (requests_handler (callback ex_env) (next_step ex_env) ex_pending 7)) 7
     = Some (True, 0, [9])"
proof -
  have 2: "requests ex_pending 7 = Some (True, 1, [])"
    and 3: "1 \<le> receive_block_size ex_pending"
    and 4: "1 \<le> length (sock_buf ex_pending 7)"
    and 5: "[] @ take 1 (sock_buf ex_pending 7) = 9 # []"
    by (simp_all add: ex_pending_def ex_admitted_def)
  have 6: "(9 :: byte) \<noteq> HEARTBEAT"
    by (simp add: HEARTBEAT_def)
  have 7: "callback ex_env 0 [] = Some (UserError ''empty body'')"
    by (simp add: ex_env_def)
  show ?thesis
    using callback_exception_propagates [where cb = "callback ex_env"
        and ns = "next_step ex_env" and s = ex_pending and c = 7 and h = 0 and left = 1
        and buf = "[]" and tag = 9 and body = "[]", OF ex_pending_is_admitted 2 3 4 5 6 7]
    by (simp add: ex_pending_is_admitted 2 7)
qed

subsection \<open>DISCONNECT\<close>

lemma map_pop_absent: "c \<notin> dom m \<Longrightarrow> m(c := None) = m"
  by (simp add: domIff)

lemma disconn_handler_eq:
  "disconn_handler s c =
     (case handlers s c of
        None \<Rightarrow>
          Inl (KeyError,
            s\<lparr>waiting_for_init := (waiting_for_init s)(c := None),
              requests := (requests s)(c := None),
              responses := (responses s)(c := None),
              closed := insert c (closed s)\<rparr>)
      | Some h \<Rightarrow>
          Inr (s\<lparr>waiting_for_init := (waiting_for_init s)(c := None),
                 requests := (requests s)(c := None),
                 responses := (responses s)(c := None),
                 closed := insert c (closed s),
                 handlers := (handlers s)(c := None)\<rparr>))"
  by (cases "c \<in> dom (waiting_for_init s)"; cases "c \<in> dom (requests s)";
      cases "c \<in> dom (responses s)";
      simp add: disconn_handler_def map_pop_absent split: option.split)


text \<open>
  C3, as stated, fails: after the disconnect handler has run for the admitted connection
  7 of the example, its Handler (reference 0) is still the member of its virtual group,
  and a second run raises \<^verbatim>\<open>KeyError\<close>.
\<close>

theorem disconnect_keeps_group_and_raises_twice:
  "virtual_groups (final_state (disconn_handler ex_admitted 7)) = [(Filter [0x66], [0])] \<and>
   h_conn (store (final_state (disconn_handler ex_admitted 7)) 0) = 7 \<and>
   raised (disconn_handler (final_state (disconn_handler ex_admitted 7)) 7) = Some KeyError"
  by (simp add: disconn_handler_eq final_state_def raised_def ex_admitted_def)

text \<open>
  C3, amended: for a connection registered in \<^verbatim>\<open>self.handlers\<close>, in any state of the
  other maps, the disconnect handler returns without error, removes the connection from
  the handshake-session map, the pending-frame map, the responses map and the handler
  map, leaves the other connections' entries of these maps as they were, and closes the
  socket. A second run for the same connection changes no state and raises
  \<^verbatim>\<open>KeyError\<close> at \<^verbatim>\<open>self.handlers.pop(conn)\<close>.
\<close>

theorem disconn_handler_removes_connection:
  assumes "handlers s c = Some h"
  shows "raised (disconn_handler s c) = None \<and>
         waiting_for_init (final_state (disconn_handler s c)) = (waiting_for_init s)(c := None) \<and>
         requests (final_state (disconn_handler s c)) = (requests s)(c := None) \<and>
         responses (final_state (disconn_handler s c)) = (responses s)(c := None) \<and>
         handlers (final_state (disconn_handler s c)) = (handlers s)(c := None) \<and>
         closed (final_state (disconn_handler s c)) = insert c (closed s) \<and>
         raised (disconn_handler (final_state (disconn_handler s c)) c) = Some KeyError \<and>
         final_state (disconn_handler (final_state (disconn_handler s c)) c) =
           final_state (disconn_handler s c)"
  using assms by (simp add: disconn_handler_eq final_state_def raised_def)

theorem disconn_handler_removes_connection_witness:
  "handlers ex_pending 7 = Some 0 \<and>
   raised (disconn_handler ex_pending 7) = None \<and>
   requests (final_state (disconn_handler ex_pending 7)) 7 = None \<and>
   handlers (final_state (disconn_handler ex_pending 7)) 7 = None \<and>
   closed (final_state (disconn_handler ex_pending 7)) = {7}"
proof -
  have h: "handlers ex_pending 7 = Some 0"
    by (simp add: ex_pending_def ex_admitted_def)
  have c: "closed ex_pending = {}"
    by (simp add: ex_pending_def ex_admitted_def)
  show ?thesis
    using disconn_handler_removes_connection [OF h]
    by (simp add: h c)
qed

subsection \<open>Dispatch\<close>











subsection \<open>Traces on which the code departs from the specification\<close>

lemma ex_beaten_reached: "run ex_env ex_admitted (beat 7 80) = Inr ex_beaten"
  by (simp add: ex_env_def ex_admitted_def ex_beaten_def beat_def handler_defs fun_upd_idem_iff)

lemma ex_two_reached: "run ex_env ex_beaten (admit 8 0x66) = Inr ex_two"
  by (simp add: ex_env_def ex_admitted_def ex_beaten_def ex_two_def admit_def handler_defs
      fun_upd_idem_iff)

text \<open>
  C1: a length prefix that arrives in two reads. Connection 7 is admitted; the frame of
  the one payload byte 9 is sent as \<open>[1, 0]\<close> and then \<open>[0, 0, 9]\<close>. The first read
  stores the two prefix bytes; the second read completes the prefix and evaluates
  \<^verbatim>\<open>int.from_bytes(request_cell[2], 'little') + received\<close>, an \<^verbatim>\<open>int\<close> plus a
  \<^verbatim>\<open>bytes\<close>: \<^verbatim>\<open>TypeError\<close>. No frame is produced, the two bytes read are lost and
  the cell still waits for two prefix bytes.
\<close>

theorem split_prefix_raises_TypeError:
  "run ex_env (init_server 4096)
     (admit 7 0x66 @ [Arrive 7 [1, 0], RECEIVE 7, Arrive 7 [0, 0, 9], RECEIVE 7]) =
   Inl (TypeError,
     ex_admitted\<lparr>requests := [7 \<mapsto> (False, 2, [1, 0])], sock_buf := (\<lambda>c. [])(7 := [9])\<rparr>)"
  by (simp add: run_append ex_admitted_reached)
    (simp add: ex_env_def ex_admitted_def handler_defs)

text \<open>
  C2: the first RECEIVE of a connection that is not admitted. The four magic bytes go
  through \<^verbatim>\<open>conn.recv(4)\<close> and \<^verbatim>\<open>int.from_bytes\<close>: the server now waits for a frame
  of 132201 bytes, and the handshake initialiser is as \<^verbatim>\<open>conn_handler\<close> made it.
\<close>

theorem magic_bytes_taken_for_length_prefix:
  "run ex_env (init_server 4096) [CONNECT 7, Arrive 7 [0x69, 4, 2, 0], RECEIVE 7] =
     Inr (ex_fresh\<lparr>requests := [7 \<mapsto> (True, 132201, [])]\<rparr>) \<and>
   waiting_for_init ex_fresh 7 = Some (HandlerInitializer ex_env 7)"
  by (simp add: ex_env_def ex_fresh_def handler_defs fun_upd_idem_iff)

text \<open>
  C4: connect, handshake, disconnect, dispatch. After DISCONNECT the connection 7 is
  closed and gone from \<^verbatim>\<open>self.handlers\<close>, its Handler 0 is still the member of its
  virtual group, and \<^verbatim>\<open>send_update\<close> selects it and calls its \<^verbatim>\<open>send\<close>.
\<close>

theorem dispatch_reaches_disconnected_handler:
  "run ex_env (init_server 4096) (admit 7 0x66 @ [DISCONNECT 7, Dispatch [0x66, 5]]) =
     Inr (ex_admitted\<lparr>handlers := Map.empty, closed := {7}, sent := [(0, [0x66, 5])]\<rparr>) \<and>
   virtual_groups ex_admitted = [(Filter [0x66], [0])] \<and>
   h_conn (store ex_admitted 0) = 7"
  by (simp add: run_append ex_admitted_reached)
    (simp add: ex_env_def ex_admitted_def handler_defs)

text \<open>
  C9: two Handlers in one group, the first with load 80, the second admitted and without
  a heartbeat yet. \<^verbatim>\<open>min\<close> compares \<^verbatim>\<open>None < 80\<close>: \<^verbatim>\<open>TypeError\<close>, and nothing is sent.
\<close>

theorem unset_load_raises_TypeError:
  "run ex_env (init_server 4096)
     (admit 7 0x66 @ beat 7 80 @ admit 8 0x66 @ [Dispatch [0x66, 5]]) = Inl (TypeError, ex_two) \<and>
   virtual_groups ex_two = [(Filter [0x66], [0, 1])] \<and>
   load (store ex_two 0) = Some 80 \<and> load (store ex_two 1) = None"
  by (simp add: run_append ex_admitted_reached ex_beaten_reached ex_two_reached)
    (simp add: ex_env_def ex_two_def handler_defs)

subsection \<open>What every reachable state satisfies\<close>

lemma vg_add_nonempty:
  "\<forall>(f, hs) \<in> set vgs. hs \<noteq> [] \<Longrightarrow> \<forall>(f, hs) \<in> set (vg_add g h vgs). hs \<noteq> []"
  by (induction vgs) (auto split: if_splits)

lemma final_state_simps [simp]:
  "final_state (Inr s) = s" "final_state (Inl (e, s)) = s"
  by (simp_all add: final_state_def)

lemma groups_nonempty_vg_add:
  "groups_nonempty s \<Longrightarrow> virtual_groups s' = vg_add f h (virtual_groups s) \<Longrightarrow>
   groups_nonempty s'"
  using vg_add_nonempty [of "virtual_groups s" f h] by (simp add: groups_nonempty_def)

lemma response_frame:
  "handlers (final_state (response cb ns s c body)) = handlers s \<and>
   next_ref (final_state (response cb ns s c body)) = next_ref s \<and>
   (groups_nonempty s \<longrightarrow> groups_nonempty (final_state (response cb ns s c body)))"
proof (cases "handlers s c")
  case None
  then show ?thesis
    by (simp add: response_def)
next
  case (Some h)
  show ?thesis
  proof (cases "waiting_for_init s c")
    case None
    with Some show ?thesis
      by (simp add: response_def Let_def groups_nonempty_def split: list.split option.split)
  next
    case ini: (Some initializer)
    obtain resp initializer' where ns: "ns initializer body = (resp, initializer')"
      by (cases "ns initializer body")
    show ?thesis
    proof (cases resp)
      case (StepBool b)
      with Some ini ns show ?thesis
        by (simp add: response_def Let_def groups_nonempty_def)
    next
      case (StepValue v)
      with Some ini ns
      have vg: "virtual_groups (final_state (response cb ns s c body)) =
          vg_add (Filter v) h (virtual_groups s)"
        and "handlers (final_state (response cb ns s c body)) = handlers s"
        and "next_ref (final_state (response cb ns s c body)) = next_ref s"
        by (simp_all add: response_def Let_def)
      then show ?thesis
        using groups_nonempty_vg_add [OF _ vg] by simp
    qed
  qed
qed

lemma final_state_pop:
  "final_state (case r of Inl e \<Rightarrow> Inl e | Inr s3 \<Rightarrow> Inr (s3\<lparr>requests := g s3\<rparr>)) =
     (case r of Inl e \<Rightarrow> final_state r
      | Inr s3 \<Rightarrow> (final_state r)\<lparr>requests := g (final_state r)\<rparr>)"
  by (cases r) auto

lemma requests_handler_frame:
  "handlers (final_state (requests_handler cb ns s c)) = handlers s \<and>
   next_ref (final_state (requests_handler cb ns s c)) = next_ref s \<and>
   (groups_nonempty s \<longrightarrow> groups_nonempty (final_state (requests_handler cb ns s c)))"
proof (cases "requests s c")
  case None
  then show ?thesis
    by (simp add: requests_handler_def recv_def groups_nonempty_def)
next
  case (Some cell)
  obtain got left buf where cell: "cell = (got, left, buf)"
    by (cases cell)
  show ?thesis
  proof (cases got)
    case False
    with Some cell show ?thesis
      by (simp add: requests_handler_def recv_def int_plus_bytes_def groups_nonempty_def)
  next
    case True
    let ?n = "if left \<le> receive_block_size s then left else receive_block_size s"
    let ?s2 = "s\<lparr>sock_buf := (sock_buf s)(c := drop ?n (sock_buf s c)),
        requests := (requests s)(c \<mapsto> (True, left - length (take ?n (sock_buf s c)),
          buf @ take ?n (sock_buf s c)))\<rparr>"
    have rh: "requests_handler cb ns s c =
        (if left - length (take ?n (sock_buf s c)) \<le> 0
         then (case response cb ns ?s2 c (buf @ take ?n (sock_buf s c)) of
                 Inl e \<Rightarrow> Inl e
               | Inr s3 \<Rightarrow> Inr (s3\<lparr>requests := (requests s3)(c := None)\<rparr>))
         else Inr ?s2)"
      using Some cell True by (simp add: requests_handler_def recv_def Let_def)
    from response_frame [of cb ns ?s2 c "buf @ take ?n (sock_buf s c)"]
    show ?thesis
      unfolding rh by (auto simp add: final_state_pop groups_nonempty_def split: sum.split)
  qed
qed


lemma send_loop_frame:
  "\<exists>ps. final_state (send_loop mt dp req s vgs) = s\<lparr>sent := sent s @ ps\<rparr>"
proof (induction vgs arbitrary: s)
  case Nil
  show ?case by (rule exI [of _ "[]"]) simp
next
  case (Cons g vgs)
  obtain f hs where g: "g = (f, hs)"
    by (cases g)
  show ?case
  proof (cases "mt f req")
    case False
    with Cons [of s] g show ?thesis by simp
  next
    case True
    show ?thesis
    proof (cases "py_min (\<lambda>h. load (store s h)) hs")
      case (Inl e)
      with True g have "final_state (send_loop mt dp req s (g # vgs)) = s\<lparr>sent := sent s @ []\<rparr>"
        by simp
      then show ?thesis by blast
    next
      case m: (Inr m)
      show ?thesis
      proof (cases "dp req")
        case (Inl e)
        with True g m
        have "final_state (send_loop mt dp req s (g # vgs)) = s\<lparr>sent := sent s @ []\<rparr>"
          by simp
        then show ?thesis by blast
      next
        case (Inr msg)
        from Cons [of "handler_send s m msg"] obtain ps where
          "final_state (send_loop mt dp req (handler_send s m msg) vgs) =
             (handler_send s m msg)\<lparr>sent := sent (handler_send s m msg) @ ps\<rparr>"
          by blast
        with True g m Inr
        have "final_state (send_loop mt dp req s (g # vgs)) =
            s\<lparr>sent := sent s @ ((m, msg) # ps)\<rparr>"
          by (simp add: handler_send_def)
        then show ?thesis by blast
      qed
    qed
  qed
qed

lemma registry_ok_init: "registry_ok (init_server block)"
  by (simp add: registry_ok_def groups_nonempty_def init_server_def)

lemma registry_ok_conn_handler:
  assumes "registry_ok s"
  shows "registry_ok (conn_handler hi s c)"
proof -
  from assms have below: "\<And>c' h. handlers s c' = Some h \<Longrightarrow> h < next_ref s"
    and inj: "inj_on (handlers s) (dom (handlers s))"
    and ne: "groups_nonempty s"
    by (auto simp add: registry_ok_def)
  have "inj_on ((handlers s)(c \<mapsto> next_ref s)) (dom ((handlers s)(c \<mapsto> next_ref s)))"
  proof (rule inj_onI)
    fix x y
    assume x: "x \<in> dom ((handlers s)(c \<mapsto> next_ref s))"
      and y: "y \<in> dom ((handlers s)(c \<mapsto> next_ref s))"
      and eq: "((handlers s)(c \<mapsto> next_ref s)) x = ((handlers s)(c \<mapsto> next_ref s)) y"
    show "x = y"
    proof (cases "x = c \<or> y = c")
      case True
      with eq x y show ?thesis
        by (auto split: if_splits dest: below)
    next
      case False
      with eq x y inj show ?thesis
        by (auto dest: inj_onD)
    qed
  qed
  moreover have "\<forall>c' h. ((handlers s)(c \<mapsto> next_ref s)) c' = Some h \<longrightarrow> h < Suc (next_ref s)"
    using below by (auto simp add: less_Suc_eq)
  ultimately show ?thesis
    using ne by (simp add: registry_ok_def groups_nonempty_def conn_handler_def Let_def)
qed


lemma registry_ok_frame:
  assumes "registry_ok s" and "handlers s' = handlers s" and "next_ref s' = next_ref s"
    and "groups_nonempty s \<longrightarrow> groups_nonempty s'"
  shows "registry_ok s'"
  using assms by (simp add: registry_ok_def)

lemma inj_on_map_pop:
  assumes "inj_on m (dom m)"
  shows "inj_on (m(c := None)) (dom (m(c := None)))"
proof (rule inj_onI)
  fix x y
  assume "x \<in> dom (m(c := None))" and "y \<in> dom (m(c := None))"
    and "(m(c := None)) x = (m(c := None)) y"
  then have "x \<in> dom m" "y \<in> dom m" "m x = m y"
    by (auto split: if_splits)
  with assms show "x = y"
    by (auto dest: inj_onD)
qed

lemma registry_ok_disconn_handler:
  assumes "registry_ok s"
  shows "registry_ok (final_state (disconn_handler s c))"
proof (cases "handlers s c")
  case None
  with assms show ?thesis
    by (simp add: disconn_handler_eq registry_ok_def groups_nonempty_def)
next
  case (Some h)
  from assms have "inj_on ((handlers s)(c := None)) (dom (handlers s) - {c})"
    using inj_on_map_pop [of "handlers s" c] by (simp add: registry_ok_def)
  with assms Some show ?thesis
    by (simp add: disconn_handler_eq registry_ok_def groups_nonempty_def)
qed

lemma registry_ok_handle_event:
  assumes "registry_ok s"
  shows "registry_ok (final_state (handle_event E s ev))"
proof (cases ev)
  case (CONNECT c)
  with assms show ?thesis
    by (simp add: registry_ok_conn_handler)
next
  case (RECEIVE c)
  with requests_handler_frame [of "callback E" "next_step E" s c] assms show ?thesis
    by (simp add: registry_ok_frame)
next
  case (DISCONNECT c)
  with assms show ?thesis
    by (simp add: registry_ok_disconn_handler)
next
  case (Arrive c bs)
  with assms show ?thesis
    by (simp add: arrive_def registry_ok_def groups_nonempty_def)
next
  case (Dispatch r)
  from send_loop_frame [of "matches E" "dumps E" r s "virtual_groups s"] obtain ps where
    "final_state (send_loop (matches E) (dumps E) r s (virtual_groups s)) =
       s\<lparr>sent := sent s @ ps\<rparr>"
    by blast
  with Dispatch assms show ?thesis
    by (simp add: send_update_def registry_ok_def groups_nonempty_def)
qed

lemma registry_ok_run:
  assumes "registry_ok s"
  shows "registry_ok (final_state (run E s evs))"
  using assms
proof (induction evs arbitrary: s)
  case Nil
  then show ?case by simp
next
  case (Cons ev evs)
  from Cons.prems have ok: "registry_ok (final_state (handle_event E s ev))"
    by (rule registry_ok_handle_event)
  show ?case
  proof (cases "handle_event E s ev")
    case (Inl e)
    with ok show ?thesis
      by (cases e) simp
  next
    case (Inr s')
    with ok Cons.IH [of s'] show ?thesis
      by simp
  qed
qed

lemma reachable_registry_ok: "registry_ok (final_state (run E (init_server block) evs))"
  by (rule registry_ok_run) (rule registry_ok_init)

subsection \<open>The two defects in general\<close>

text \<open>
  Whenever a read completes a length prefix that an earlier read has begun, the handler
  raises \<^verbatim>\<open>TypeError\<close>; and \<^verbatim>\<open>min\<close> over two or more Handlers raises it as soon as one
  load is unset.
\<close>

lemma split_prefix_completion_raises:
  assumes "requests s c = Some (False, left, buf)" and "left \<le> length (sock_buf s c)"
  shows "raised (requests_handler cb ns s c) = Some TypeError"
  using assms by (simp add: requests_handler_def recv_def int_plus_bytes_def raised_def)

lemma min_loop_unset_raises:
  assumes "key best = None \<or> (\<exists>x \<in> set xs. key x = None)" and "xs \<noteq> []"
  shows "min_loop key best xs = Inl TypeError"
  using assms
proof (induction xs arbitrary: best)
  case Nil
  then show ?case by simp
next
  case (Cons x xs)
  show ?case
  proof (cases "key x = None \<or> key best = None")
    case True
    then show ?thesis
      by (auto split: option.split)
  next
    case False
    then obtain a b where ab: "key x = Some a" "key best = Some b"
      by auto
    with Cons.prems have some: "\<exists>y \<in> set xs. key y = None"
      by auto
    then have "xs \<noteq> []"
      by auto
    with Cons.IH [of "if a < b then x else best"] some ab show ?thesis
      by simp
  qed
qed

lemma py_min_unset_raises:
  assumes "2 \<le> length hs" and "\<exists>h \<in> set hs. key h = None"
  shows "py_min key hs = Inl TypeError"
proof -
  from assms(1) obtain x y ys where hs: "hs = x # y # ys"
    by (cases hs; cases "tl hs") auto
  with assms(2) have "key x = None \<or> (\<exists>h \<in> set (y # ys). key h = None)"
    by auto
  then have "min_loop key x (y # ys) = Inl TypeError"
    by (rule min_loop_unset_raises) simp
  with hs show ?thesis
    by simp
qed

subsection \<open>Reassembly when the prefix arrives whole\<close>

text \<open>
  What the reassembly does achieve: when the four prefix bytes arrive in one read, any
  split of a non-empty payload into non-empty chunks no longer than the block size gives
  one call of \<^verbatim>\<open>response\<close> with the payload, byte for byte, and the cell is gone
  afterwards.
\<close>

lemma payload_chunk_step:
  assumes "requests s c = Some (True, left, buf)" and "sock_buf s c = []"
    and "length chunk \<le> left" and "length chunk \<le> receive_block_size s"
  shows "requests_handler cb ns (arrive s c chunk) c =
           (if left = length chunk
            then emit cb ns s c (buf @ chunk)
            else Inr (s\<lparr>requests := (requests s)
                        (c \<mapsto> (True, left - length chunk, buf @ chunk))\<rparr>))"
proof -
  let ?n = "if left \<le> receive_block_size s then left else receive_block_size s"
  have sb: "(sock_buf s)(c := []) = sock_buf s"
    using assms(2) by (simp add: fun_upd_idem)
  have st: "s\<lparr>sock_buf := sock_buf s\<rparr> = s"
    by simp
  show ?thesis
    using assms
    by (simp add: requests_handler_def recv_def arrive_def emit_def sb st Let_def)
qed


lemma payload_reassembly:
  assumes "requests s c = Some (True, left, buf)" and "sock_buf s c = []"
    and "length (concat chunks) = left" and "chunks \<noteq> []"
    and "\<forall>chunk \<in> set chunks. chunk \<noteq> [] \<and> length chunk \<le> receive_block_size s"
  shows "deliver cb ns s c chunks = emit cb ns s c (buf @ concat chunks)"
  using assms
proof (induction chunks arbitrary: s left buf)
  case Nil
  then show ?case by simp
next
  case (Cons chunk chunks)
  have le: "length chunk \<le> left" and blk: "length chunk \<le> receive_block_size s"
    using Cons.prems(3,5) by auto
  note step = payload_chunk_step [OF Cons.prems(1,2) le blk, of cb ns]
  show ?case
  proof (cases "chunks = []")
    case True
    with Cons.prems(3) step show ?thesis
      by (simp split: sum.split)
  next
    case False
    with Cons.prems(5) have "concat chunks \<noteq> []"
      by (cases chunks) auto
    with Cons.prems(3) have more: "left \<noteq> length chunk"
      by auto
    let ?s' = "s\<lparr>requests := (requests s)(c \<mapsto> (True, left - length chunk, buf @ chunk))\<rparr>"
    have "deliver cb ns ?s' c chunks = emit cb ns ?s' c ((buf @ chunk) @ concat chunks)"
      using Cons.prems(2,3,5) False by (intro Cons.IH [of ?s' "left - length chunk"]) auto
    moreover have "emit cb ns ?s' c payload = emit cb ns s c payload" for payload
      by (simp add: emit_def)
    ultimately show ?thesis
      using step more by simp
  qed
qed

lemma whole_prefix_reassembly:
  assumes "requests s c = None" and "sock_buf s c = []"
    and "length prefix = 4" and "from_bytes_little prefix = length (concat chunks)"
    and "chunks \<noteq> []"
    and "\<forall>chunk \<in> set chunks. chunk \<noteq> [] \<and> length chunk \<le> receive_block_size s"
  shows "deliver cb ns s c (prefix # chunks) = emit cb ns s c (concat chunks)"
proof -
  let ?s' = "s\<lparr>requests := (requests s)(c \<mapsto> (True, length (concat chunks), []))\<rparr>"
  have sb: "(sock_buf s)(c := []) = sock_buf s"
    using assms(2) by (simp add: fun_upd_idem)
  have "requests_handler cb ns (arrive s c prefix) c = Inr ?s'"
    using assms(1,2,3,4) by (simp add: requests_handler_def recv_def arrive_def sb)
  moreover have "deliver cb ns ?s' c chunks = emit cb ns ?s' c ([] @ concat chunks)"
    using assms(2,5,6) by (intro payload_reassembly) auto
  moreover have "emit cb ns ?s' c payload = emit cb ns s c payload" for payload
    by (simp add: emit_def)
  ultimately show ?thesis
    by simp
qed


lemma whole_prefix_application_frame:
  assumes "requests s c = None" and "sock_buf s c = []"
    and "length prefix = 4" and "from_bytes_little prefix = length (concat chunks)"
    and "chunks \<noteq> []"
    and "\<forall>chunk \<in> set chunks. chunk \<noteq> [] \<and> length chunk \<le> receive_block_size s"
    and "admitted s c h" and "concat chunks = tag # body" and "tag \<noteq> HEARTBEAT"
    and "cb h body = None"
  shows "deliver cb ns s c (prefix # chunks) =
           Inr (s\<lparr>callback_log := callback_log s @ [(h, body)]\<rparr>)"
proof -
  let ?s' = "s\<lparr>requests := (requests s)(c \<mapsto> (True, 0, tag # body))\<rparr>"
  have adm: "admitted ?s' c h"
    using assms(7) by (simp add: admitted_def)
  have pop: "(requests s)(c := None) = requests s"
    using assms(1) by (simp add: fun_upd_idem)
  have "emit cb ns s c (tag # body) = Inr (s\<lparr>callback_log := callback_log s @ [(h, body)]\<rparr>)"
    using assms(9,10) by (simp add: emit_def response_application [OF adm] pop)
  with whole_prefix_reassembly [OF assms(1-6), of cb ns] assms(8) show ?thesis
    by simp
qed

end
